theory Spec2Isabelle
  imports Complex_Main
begin

section \<open>Python strings\<close>

text \<open>
  A Python \<open>str\<close> is a sequence of code points. The model takes the code points
  below 256, one \<^typ>\<open>char\<close> each, so a \<^typ>\<open>string\<close> is read as the
  Latin-1 part of a Python string. The three string operations the tools use are
  \<open>kw in text\<close>, \<open>str.lower\<close> and \<open>str.strip\<close>.
\<close>

fun startswith :: "string \<Rightarrow> string \<Rightarrow> bool" where
  "startswith text [] = True"
| "startswith [] (k # kw) = False"
| "startswith (c # text) (k # kw) = (c = k \<and> startswith text kw)"

text \<open>\<open>contains kw text\<close> is Python's \<open>kw in text\<close>: \<open>kw\<close> occurs at some offset.\<close>

fun contains :: "string \<Rightarrow> string \<Rightarrow> bool" where
  "contains kw [] = (kw = [])"
| "contains kw (c # text) = (startswith (c # text) kw \<or> contains kw text)"

text \<open>
  \<open>str.lower\<close> on code points below 256: the letters A-Z and the accented capitals
  U+00C0-U+00DE (without the multiplication sign U+00D7) move up by 32, every other
  code point stays.
\<close>

definition lower_char :: "char \<Rightarrow> char" where
  "lower_char c =
     (let n = (of_char c :: nat)
      in if (65 \<le> n \<and> n \<le> 90) \<or> (192 \<le> n \<and> n \<le> 222 \<and> n \<noteq> 215)
         then char_of (n + 32) else c)"

definition lower :: "string \<Rightarrow> string" where
  "lower s = map lower_char s"

text \<open>
  The white space of \<open>str.strip\<close> below 256: U+0009-U+000D, U+001C-U+0020, U+0085 and
  U+00A0.
\<close>

definition isspace :: "char \<Rightarrow> bool" where
  "isspace c =
     (let n = (of_char c :: nat)
      in (9 \<le> n \<and> n \<le> 13) \<or> (28 \<le> n \<and> n \<le> 32) \<or> n = 133 \<or> n = 160)"

definition strip :: "string \<Rightarrow> string" where
  "strip s = rev (dropWhile isspace (rev (dropWhile isspace s)))"

section \<open>tools.py: risk\_estimator\_tool\<close>

definition high_risk_keywords :: "string list" where
  "high_risk_keywords =
     [''brake'', ''braking'', ''steering'', ''train'', ''railway'', ''high-voltage'',
      ''high voltage'', ''battery'', ''bms'', ''powertrain'', ''airbag'',
      ''collision avoidance'']"

definition medium_risk_keywords :: "string list" where
  "medium_risk_keywords =
     [''monitor'', ''monitoring'', ''diagnostic'', ''diagnostics'', ''emergency'',
      ''fail-safe'', ''failsafe'', ''stability control'', ''safety monitoring'']"

text \<open>
  One \<open>for kw in keywords: if kw in text: score += w\<close> loop, from the score it starts
  with.
\<close>

fun scan_keywords :: "int \<Rightarrow> string \<Rightarrow> string list \<Rightarrow> int \<Rightarrow> int" where
  "scan_keywords w text [] score = score"
| "scan_keywords w text (kw # kws) score =
     scan_keywords w text kws (if contains kw text then score + w else score)"

text \<open>The score after both loops, on the text already in lower case.\<close>

definition risk_score :: "string \<Rightarrow> int" where
  "risk_score text =
     scan_keywords 1 text medium_risk_keywords
       (scan_keywords 2 text high_risk_keywords 0)"

definition risk_estimator_tool :: "string \<Rightarrow> string" where
  "risk_estimator_tool system_description =
     (let text = lower system_description;
          score = risk_score text
      in if score \<ge> 3 then ''high''
         else if score \<ge> 1 then ''medium''
         else ''low'')"

section \<open>Python dictionaries and errors\<close>

text \<open>
  The exceptions the modelled code can raise. A function that can raise returns
  \<open>error + 'a\<close>, with \<open>Inl\<close> for the exception.
\<close>

datatype error = KeyError string | RuntimeError string | ZeroDivisionError

text \<open>
  A dictionary with string keys is an association list in insertion order;
  \<open>d.get(k, default)\<close> and \<open>d[k]\<close> read it.
\<close>

definition dict_get :: "(string \<times> 'v) list \<Rightarrow> string \<Rightarrow> 'v \<Rightarrow> 'v" where
  "dict_get d k dflt = (case map_of d k of None \<Rightarrow> dflt | Some v \<Rightarrow> v)"


section \<open>mini\_standard.py\<close>





section \<open>tools.py: standard\_lookup\_tool\<close>



section \<open>tools.py: checklist\_formatter\_tool\<close>

text \<open>
  A task is a dictionary whose values are strings (the fields \<open>phase\<close>, \<open>topic\<close>,
  \<open>description\<close> of a task are strings); any of its keys may be absent. The result
  is a dictionary from phase to lines; Python keeps a dictionary's keys in insertion
  order, so it is an association list with distinct keys.
\<close>

type_synonym task = "(string \<times> string) list"

type_synonym checklist = "(string \<times> string list) list"

text \<open>
  \<open>grouped.setdefault(phase, []).append(line)\<close>: a phase already present gets the line
  at the end of its list, a new phase is inserted last with the line alone.
\<close>

fun setdefault_append :: "checklist \<Rightarrow> string \<Rightarrow> string \<Rightarrow> checklist" where
  "setdefault_append [] phase line = [(phase, [line])]"
| "setdefault_append ((k, ls) # grouped) phase line =
     (if k = phase then (k, ls @ [line]) # grouped
      else (k, ls) # setdefault_append grouped phase line)"

text \<open>The loop over the tasks, from the dictionary built so far.\<close>

fun format_tasks :: "task list \<Rightarrow> checklist \<Rightarrow> checklist" where
  "format_tasks [] grouped = grouped"
| "format_tasks (t # tasks) grouped =
     (let phase = dict_get t ''phase'' ''general'';
          desc = strip (dict_get t ''description'' [])
      in if desc = [] then format_tasks tasks grouped
         else format_tasks tasks (setdefault_append grouped phase (''- [ ] '' @ desc)))"

definition checklist_formatter_tool :: "task list \<Rightarrow> checklist" where
  "checklist_formatter_tool tasks = format_tasks tasks []"

text \<open>
  The grouping in the words of the specification. \<open>first_seen\<close> keeps the first
  occurrence of every element, in order. \<open>kept_tasks\<close> are the pairs of phase and
  trimmed description of the tasks that are not dropped, \<open>lines_of\<close> are the lines
  of one phase in input order, and \<open>spec_format\<close> lists them for every phase, the
  phases in first-seen order.
\<close>

definition first_seen :: "'a list \<Rightarrow> 'a list" where
  "first_seen xs = rev (remdups (rev xs))"

definition kept_tasks :: "task list \<Rightarrow> (string \<times> string) list" where
  "kept_tasks tasks =
     [(dict_get t ''phase'' ''general'', strip (dict_get t ''description'' [])).
        t \<leftarrow> tasks, strip (dict_get t ''description'' []) \<noteq> []]"

definition lines_of :: "(string \<times> string) list \<Rightarrow> string \<Rightarrow> string list" where
  "lines_of kept p = [''- [ ] '' @ d. (q, d) \<leftarrow> kept, q = p]"

definition group_lines :: "(string \<times> string) list \<Rightarrow> checklist" where
  "group_lines kept = map (\<lambda>p. (p, lines_of kept p)) (first_seen (map fst kept))"

definition spec_format :: "task list \<Rightarrow> checklist" where
  "spec_format tasks = group_lines (kept_tasks tasks)"

text \<open>
  The loop seen from the tasks that are kept: one \<open>setdefault_append\<close> for each pair
  of phase and trimmed description.
\<close>

fun add_lines :: "(string \<times> string) list \<Rightarrow> checklist \<Rightarrow> checklist" where
  "add_lines [] grouped = grouped"
| "add_lines ((p, d) # kept) grouped =
     add_lines kept (setdefault_append grouped p (''- [ ] '' @ d))"

section \<open>agents.py: runners and their events\<close>

text \<open>
  The generation service is outside the repository. Of an event the pipeline reads
  \<open>is_final_response()\<close>, \<open>content\<close> (which may be \<open>None\<close>), the content's
  \<open>parts\<close> (absent and empty are both false in the pipeline's test) and the first
  part's \<open>text\<close>, taken to be a string.
\<close>

datatype part = Part (part_text: string)

datatype content = Content (role: string) (parts: "part list")

record event =
  is_final_response :: bool
  content :: "content option"

text \<open>
  \<open>runner.run_async(user_id, session_id, new_message)\<close> yields a stream of events,
  taken as the finite list of what it yields. Whatever the service keeps or changes
  (its conversational history, anything outside the process) is a state of type
  \<open>'w\<close> that a call takes and returns.
\<close>

type_synonym 'w runner = "string \<Rightarrow> string \<Rightarrow> content \<Rightarrow> 'w \<Rightarrow> event list \<times> 'w"

text \<open>
  The two runner names of a module, each bound to a runner or to \<open>None\<close>.
\<close>

record 'w agents =
  planner_runner :: "'w runner option"
  checker_runner :: "'w runner option"

definition USER_ID :: string where
  "USER_ID = ''demo_user''"

definition SESSION_ID_PLANNER :: string where
  "SESSION_ID_PLANNER = ''planner_session''"

definition SESSION_ID_CHECKER :: string where
  "SESSION_ID_CHECKER = ''checker_session''"

section \<open>eval.py: run\_pipeline\_get\_text\<close>

text \<open>
  A system is the dictionary the evaluation documents: the keys \<open>id\<close>, \<open>name\<close>,
  \<open>domain\<close>, \<open>description\<close> and \<open>expected_must_have\<close> are all present.
\<close>

record system =
  system_id :: string
  name :: string
  domain :: string
  description :: string
  expected_must_have :: "string list"

text \<open>The two prompts, as the f-strings build them.\<close>

definition planner_input :: "string \<Rightarrow> string \<Rightarrow> string \<Rightarrow> string \<Rightarrow> string" where
  "planner_input description' domain' standard risk_level =
     ''System description:\<newline>'' @ description' @ ''\<newline>\<newline>'' @
     ''Domain: '' @ domain' @ ''\<newline>'' @
     ''Target standard: '' @ standard @ ''\<newline>'' @
     ''Risk level (pre-estimated): '' @ risk_level @ ''\<newline>\<newline>'' @
     ''Your task:\<newline>'' @
     ''1. Propose a safety and compliance work plan for this system, '' @
     ''grouped by phase.\<newline>'' @
     ''2. Mention key concepts such as HARA / risk assessment, safety goals,\<newline>'' @
     ''   safety requirements, verification / test plan, and safety case '' @
     ''where appropriate.\<newline>'' @
     ''3. Keep the answer concise (ideally under 200 words).\<newline>''"

text \<open>
  Between \<open>2\<close> and \<open>4\<close> in the third task the source has three characters outside
  ASCII, two of them code points above 255 (U+20AC, U+201C); the constant writes a
  hyphen in their place. Nothing below reads the text of a prompt.
\<close>

definition checker_input :: "string \<Rightarrow> string \<Rightarrow> string \<Rightarrow> string \<Rightarrow> string \<Rightarrow> string" where
  "checker_input description' domain' standard risk_level planner_text =
     ''System description:\<newline>'' @ description' @ ''\<newline>\<newline>'' @
     ''Domain: '' @ domain' @ ''\<newline>'' @
     ''Target standard: '' @ standard @ ''\<newline>'' @
     ''Risk level: '' @ risk_level @ ''\<newline>\<newline>'' @
     ''Current checklist or plan from the PlannerAgent:\<newline>'' @
     replicate 3 (CHR 0x22) @ planner_text @ replicate 3 (CHR 0x22) @ ''\<newline>\<newline>'' @
     ''Your task:\<newline>'' @
     ''1. Check whether the checklist includes at least the following '' @
     ''critical concepts for medium and high risk systems: HARA / '' @
     ''risk assessment, safety goals, verification or test plan, and '' @
     ''safety case or safety documentation.\<newline>'' @
     ''2. If something is missing, add additional checklist items to fill '' @
     ''the gaps.\<newline>'' @
     ''3. Return an updated grouped checklist plus a short textual review '' @
     ''(2-4 bullet points).\<newline>'' @
     ''4. Keep the whole answer concise (ideally under 200 words).\<newline>''"

text \<open>
  The \<open>async for\<close> loop over a stage's events: an event that is a final response and
  has a content with at least one part overwrites the captured string with the text
  of its first part; every other event leaves it.
\<close>

fun capture_final :: "event list \<Rightarrow> string \<Rightarrow> string" where
  "capture_final [] captured = captured"
| "capture_final (ev # events) captured =
     capture_final events
       (if is_final_response ev \<and> content ev \<noteq> None \<and> parts (the (content ev)) \<noteq> []
        then part_text (hd (parts (the (content ev))))
        else captured)"

definition not_initialized :: error where
  "not_initialized = RuntimeError ''Agents (Planner/Checker) are not initialized.''"

definition run_pipeline_get_text ::
    "'w agents \<Rightarrow> system \<Rightarrow> string \<Rightarrow> 'w \<Rightarrow> (error + string) \<times> 'w" where
  "run_pipeline_get_text ag sys standard w =
     (if planner_runner ag = None \<or> checker_runner ag = None then (Inl not_initialized, w)
      else
        let description' = description sys;
            domain' = domain sys;
            risk_level = risk_estimator_tool description';
            planner_content = Content ''user'' [Part (planner_input description' domain' standard risk_level)];
            (planner_events, w1) =
               the (planner_runner ag) USER_ID SESSION_ID_PLANNER planner_content w;
            planner_text = capture_final planner_events [];
            checker_content =
               Content ''user'' [Part (checker_input description' domain' standard risk_level planner_text)];
            (checker_events, w2) =
               the (checker_runner ag) USER_ID SESSION_ID_CHECKER checker_content w1;
            checker_text = capture_final checker_events []
        in (Inr checker_text, w2))"

text \<open>
  The two modules' names. agents.py binds \<open>planner_runner\<close> and \<open>checker_runner\<close>
  to \<open>None\<close> when it is loaded (lines 194-195), and \<open>setup_sessions_and_runners\<close>
  rebinds them, as \<open>global\<close> names of agents.py (line 205), to a runner for each
  agent that exists. eval.py's \<open>from agents import planner_runner, checker_runner\<close>
  (lines 17-23) binds two names of its own to the values that the names of agents.py
  have at the moment eval.py is loaded, and \<open>run_pipeline_get_text\<close> reads the names
  of eval.py. An agent is given as the runner that \<open>Runner(agent=...)\<close> builds from
  it, \<open>None\<close> when the agent could not be created; the sessions that the setup
  creates in the service are left out.
\<close>

record 'w namespaces =
  agents_names :: "'w agents"
  eval_names :: "'w agents"

definition load_agents :: "'w agents" where
  "load_agents = \<lparr>planner_runner = None, checker_runner = None\<rparr>"

definition import_eval :: "'w agents \<Rightarrow> 'w namespaces" where
  "import_eval g = \<lparr>agents_names = g, eval_names = g\<rparr>"

definition setup_sessions_and_runners ::
    "'w runner option \<Rightarrow> 'w runner option \<Rightarrow> 'w namespaces \<Rightarrow> 'w namespaces" where
  "setup_sessions_and_runners planner_agent checker_agent ns =
     (let g = agents_names ns;
          g1 = (if planner_agent \<noteq> None then g\<lparr>planner_runner := planner_agent\<rparr> else g);
          g2 = (if checker_agent \<noteq> None then g1\<lparr>checker_runner := checker_agent\<rparr> else g1)
      in ns\<lparr>agents_names := g2\<rparr>)"

section \<open>eval.py: evaluate\_systems\<close>

text \<open>\<open>key.replace("_", " ")\<close>.\<close>

definition replace_underscores :: "string \<Rightarrow> string" where
  "replace_underscores key = map (\<lambda>c. if c = CHR ''_'' then CHR '' '' else c) key"

text \<open>The value of \<open>match\<close> for one expected keyword.\<close>

definition keyword_match :: "string \<Rightarrow> string \<Rightarrow> bool" where
  "keyword_match text_lower kw =
     (let key = lower kw
      in if key = ''hara'' then
           contains ''hara'' text_lower \<or> contains ''hazard analysis'' text_lower
         else if key = ''verification_plan'' then
           (contains ''verification'' text_lower \<and> contains ''plan'' text_lower)
           \<or> contains ''test plan'' text_lower
         else contains (replace_underscores key) text_lower)"

text \<open>The loop \<open>for kw in expected\<close>, from the count so far.\<close>

fun count_covered :: "string \<Rightarrow> string list \<Rightarrow> int \<Rightarrow> int" where
  "count_covered text_lower [] covered = covered"
| "count_covered text_lower (kw # expected) covered =
     count_covered text_lower expected
       (if keyword_match text_lower kw then covered + 1 else covered)"

text \<open>
  Python's \<open>a / b\<close> on integers raises for \<open>b = 0\<close>. The quotient is kept exact, as a
  rational; Python rounds it to the nearest double.
\<close>

definition true_div :: "int \<Rightarrow> int \<Rightarrow> error + rat" where
  "true_div a b = (if b = 0 then Inl ZeroDivisionError else Inr (of_int a / of_int b))"

record row =
  row_id :: string
  row_name :: string
  row_domain :: string
  risk :: string
  expected_topics :: int
  covered_topics :: int
  coverage_ratio :: rat

text \<open>The body of the loop over the systems, after the pipeline has returned.\<close>

definition make_row :: "system \<Rightarrow> string \<Rightarrow> error + row" where
  "make_row s final_text =
     (let text_lower = lower final_text;
          expected = expected_must_have s;
          covered = count_covered text_lower expected 0
      in case true_div covered (max 1 (int (length expected))) of
           Inl e \<Rightarrow> Inl e
         | Inr ratio \<Rightarrow>
             Inr \<lparr>row_id = system_id s, row_name = name s, row_domain = domain s,
                  risk = risk_estimator_tool (description s),
                  expected_topics = int (length expected),
                  covered_topics = covered,
                  coverage_ratio = ratio\<rparr>)"

text \<open>
  The loop over the systems, from the rows built so far; an exception of the pipeline
  or of the row ends it. The data frame that the function then builds from the rows
  is not part of the model.
\<close>

fun evaluate_loop ::
    "'w agents \<Rightarrow> string \<Rightarrow> system list \<Rightarrow> row list \<Rightarrow> 'w \<Rightarrow> (error + row list) \<times> 'w" where
  "evaluate_loop ag standard [] rows w = (Inr rows, w)"
| "evaluate_loop ag standard (s # systems) rows w =
     (case run_pipeline_get_text ag s standard w of
        (Inl e, w') \<Rightarrow> (Inl e, w')
      | (Inr final_text, w') \<Rightarrow>
          (case make_row s final_text of
             Inl e \<Rightarrow> (Inl e, w')
           | Inr r \<Rightarrow> evaluate_loop ag standard systems (rows @ [r]) w'))"

definition evaluate_systems ::
    "'w agents \<Rightarrow> system list \<Rightarrow> string \<Rightarrow> 'w \<Rightarrow> (error + row list) \<times> 'w" where
  "evaluate_systems ag systems standard w = evaluate_loop ag standard systems [] w"

text \<open>
  The matching rules in the words of the specification, on a keyword \<open>k\<close> as it is
  given.
\<close>

definition spec_covered :: "string \<Rightarrow> string \<Rightarrow> bool" where
  "spec_covered text_lower k =
     (if k = ''hara'' then
        contains ''hara'' text_lower \<or> contains ''hazard analysis'' text_lower
      else if k = ''verification_plan'' then
        (contains ''verification'' text_lower \<and> contains ''plan'' text_lower)
        \<or> contains ''test plan'' text_lower
      else contains (map (\<lambda>c. if c = CHR ''_'' then CHR '' '' else c) k) text_lower)"

text \<open>
  The capture in the words of the specification: the text carried by the last
  final-response event, the empty string when there is none. An event carries the
  text of its content's first part, and no text when it has no content or no part.
\<close>

definition carried_text :: "event \<Rightarrow> string" where
  "carried_text ev =
     (case content ev of
        None \<Rightarrow> []
      | Some c \<Rightarrow> (case parts c of [] \<Rightarrow> [] | p # ps \<Rightarrow> part_text p))"

definition spec_capture :: "event list \<Rightarrow> string" where
  "spec_capture events =
     (case filter is_final_response events of
        [] \<Rightarrow> []
      | f # fs \<Rightarrow> carried_text (last (f # fs)))"

text \<open>
  What the specification says of a row: the ratio is the covered count over the maximum
  of 1 and the number of expected keywords.
\<close>

definition ratio_ok :: "system \<Rightarrow> row \<Rightarrow> bool" where
  "ratio_ok s r \<longleftrightarrow>
     coverage_ratio r =
       of_int (covered_topics r) / of_int (max 1 (int (length (expected_must_have s))))"

text \<open>The events that the loop's test lets through.\<close>

definition has_text :: "event \<Rightarrow> bool" where
  "has_text ev = (is_final_response ev \<and> content ev \<noteq> None \<and> parts (the (content ev)) \<noteq> [])"

section \<open>Substrings and the score as a count\<close>

lemma startswith_iff: "startswith t kw \<longleftrightarrow> (\<exists>suf. t = kw @ suf)"
  by (induction t kw rule: startswith.induct) auto

lemma contains_iff: "contains kw t \<longleftrightarrow> (\<exists>pre suf. t = pre @ kw @ suf)"
proof (induction t)
  case Nil
  then show ?case by auto
next
  case (Cons c t)
  show ?case
  proof
    assume "contains kw (c # t)"
    then consider "startswith (c # t) kw" | "contains kw t" by auto
    then show "\<exists>pre suf. c # t = pre @ kw @ suf"
    proof cases
      case 1
      then obtain suf where "c # t = kw @ suf" by (auto simp: startswith_iff)
      then have "c # t = [] @ kw @ suf" by simp
      then show ?thesis by blast
    next
      case 2
      then obtain pre suf where "t = pre @ kw @ suf" using Cons.IH by auto
      then have "c # t = (c # pre) @ kw @ suf" by simp
      then show ?thesis by blast
    qed
  next
    assume "\<exists>pre suf. c # t = pre @ kw @ suf"
    then obtain pre suf where eq: "c # t = pre @ kw @ suf" by blast
    show "contains kw (c # t)"
    proof (cases pre)
      case Nil
      with eq have "startswith (c # t) kw" by (auto simp: startswith_iff)
      then show ?thesis by simp
    next
      case (Cons p ps)
      with eq have "t = ps @ kw @ suf" by simp
      then have "contains kw t" using Cons.IH by blast
      then show ?thesis by simp
    qed
  qed
qed

lemma scan_keywords_card:
  "distinct kws \<Longrightarrow>
   scan_keywords w text kws score = score + w * int (card {kw \<in> set kws. contains kw text})"
proof (induction kws arbitrary: score)
  case Nil
  then show ?case by simp
next
  case (Cons k kws)
  have fin: "finite {kw \<in> set kws. contains kw text}" by simp
  have notin: "k \<notin> {kw \<in> set kws. contains kw text}" using Cons.prems by simp
  show ?case
  proof (cases "contains k text")
    case True
    then have "{kw \<in> set (k # kws). contains kw text} = insert k {kw \<in> set kws. contains kw text}"
      by auto
    then have "card {kw \<in> set (k # kws). contains kw text} = Suc (card {kw \<in> set kws. contains kw text})"
      using fin notin by simp
    with True Cons show ?thesis by (simp add: algebra_simps)
  next
    case False
    then have "{kw \<in> set (k # kws). contains kw text} = {kw \<in> set kws. contains kw text}"
      by auto
    with False Cons show ?thesis by simp
  qed
qed

lemma distinct_high: "distinct high_risk_keywords"
  by (simp add: high_risk_keywords_def)

lemma distinct_medium: "distinct medium_risk_keywords"
  by (simp add: medium_risk_keywords_def)

lemma risk_score_card:
  "risk_score text =
     2 * int (card {kw \<in> set high_risk_keywords. contains kw text}) +
     int (card {kw \<in> set medium_risk_keywords. contains kw text})"
  by (simp add: risk_score_def scan_keywords_card distinct_high distinct_medium)

lemma lower_append: "lower (xs @ ys) = lower xs @ lower ys"
  by (simp add: lower_def)

lemma contains_lower:
  assumes "lower kw = kw" and "contains kw d"
  shows "contains kw (lower d)"
proof -
  from assms(2) obtain pre suf where "d = pre @ kw @ suf"
    by (auto simp: contains_iff)
  then have "lower d = lower pre @ kw @ lower suf"
    by (simp add: lower_append assms(1))
  then show ?thesis unfolding contains_iff by blast
qed

section \<open>Properties of risk\_estimator\_tool\<close>

text \<open>
  Lower-casing, letter by letter: each of the capitals A to Z goes to the letter at the
  same place of the lower-case alphabet, the accented capitals U+00C0 to U+00DE (without
  U+00D7) move up by 32, and every other character stays.
\<close>

lemma upper_codes: "list_all (\<lambda>c. 65 \<le> (of_char c :: nat) \<and> (of_char c :: nat) \<le> 90) ''ABCDEFGHIJKLMNOPQRSTUVWXYZ''"
  by code_simp

lemma codes_upper: "list_all (\<lambda>n. char_of n \<in> set ''ABCDEFGHIJKLMNOPQRSTUVWXYZ'') [65..<91]"
  by code_simp

lemma upper_iff:
  "c \<in> set ''ABCDEFGHIJKLMNOPQRSTUVWXYZ'' \<longleftrightarrow> 65 \<le> (of_char c :: nat) \<and> (of_char c :: nat) \<le> 90"
proof
  assume "c \<in> set ''ABCDEFGHIJKLMNOPQRSTUVWXYZ''"
  with upper_codes show "65 \<le> (of_char c :: nat) \<and> (of_char c :: nat) \<le> 90"
    unfolding list_all_iff by (rule bspec)
next
  assume "65 \<le> (of_char c :: nat) \<and> (of_char c :: nat) \<le> 90"
  then have "(of_char c :: nat) \<in> {65..<91}" by simp
  then have "(of_char c :: nat) \<in> set [65..<91]" by (simp only: set_upt)
  with codes_upper have "char_of (of_char c :: nat) \<in> set ''ABCDEFGHIJKLMNOPQRSTUVWXYZ''"
    unfolding list_all_iff by (rule bspec)
  then show "c \<in> set ''ABCDEFGHIJKLMNOPQRSTUVWXYZ''" by (simp only: char_of_char)
qed

lemma upper_table:
  "list_all (\<lambda>c. map_of (zip ''ABCDEFGHIJKLMNOPQRSTUVWXYZ'' ''abcdefghijklmnopqrstuvwxyz'') c
                 = Some (lower_char c)) ''ABCDEFGHIJKLMNOPQRSTUVWXYZ''"
  by code_simp

lemma lower_char_spec:
  "lower_char c =
     (case map_of (zip ''ABCDEFGHIJKLMNOPQRSTUVWXYZ'' ''abcdefghijklmnopqrstuvwxyz'') c of
        Some l \<Rightarrow> l
      | None \<Rightarrow>
          if 192 \<le> (of_char c :: nat) \<and> (of_char c :: nat) \<le> 222 \<and> (of_char c :: nat) \<noteq> 215
          then char_of (of_char c + 32 :: nat) else c)"
proof (cases "c \<in> set ''ABCDEFGHIJKLMNOPQRSTUVWXYZ''")
  case True
  with upper_table
  have "map_of (zip ''ABCDEFGHIJKLMNOPQRSTUVWXYZ'' ''abcdefghijklmnopqrstuvwxyz'') c
          = Some (lower_char c)"
    unfolding list_all_iff by (rule bspec)
  then show ?thesis by (simp only: option.case)
next
  case False
  have len: "length ''ABCDEFGHIJKLMNOPQRSTUVWXYZ'' = length ''abcdefghijklmnopqrstuvwxyz''"
    by simp
  from False
  have none: "map_of (zip ''ABCDEFGHIJKLMNOPQRSTUVWXYZ'' ''abcdefghijklmnopqrstuvwxyz'') c = None"
    by (rule iffD2 [OF map_of_zip_is_None [OF len]])
  have "\<not> (65 \<le> (of_char c :: nat) \<and> (of_char c :: nat) \<le> 90)"
    using False upper_iff [of c] by blast
  then have "lower_char c =
     (if 192 \<le> (of_char c :: nat) \<and> (of_char c :: nat) \<le> 222 \<and> (of_char c :: nat) \<noteq> 215
      then char_of (of_char c + 32 :: nat) else c)"
    by (auto simp: lower_char_def Let_def)
  with none show ?thesis by (simp only: option.case)
qed

lemma high_risk_set:
  "set high_risk_keywords =
     {''brake'', ''braking'', ''steering'', ''train'', ''railway'', ''high-voltage'',
      ''high voltage'', ''battery'', ''bms'', ''powertrain'', ''airbag'',
      ''collision avoidance''}"
  by (simp add: high_risk_keywords_def)

lemma medium_risk_set:
  "set medium_risk_keywords =
     {''monitor'', ''monitoring'', ''diagnostic'', ''diagnostics'', ''emergency'',
      ''fail-safe'', ''failsafe'', ''stability control'', ''safety monitoring''}"
  by (simp add: medium_risk_keywords_def)

lemma lower_spec:
  "lower d =
     map (\<lambda>c. case map_of (zip ''ABCDEFGHIJKLMNOPQRSTUVWXYZ'' ''abcdefghijklmnopqrstuvwxyz'') c of
                Some l \<Rightarrow> l
              | None \<Rightarrow>
                  if 192 \<le> (of_char c :: nat) \<and> (of_char c :: nat) \<le> 222 \<and>
                     (of_char c :: nat) \<noteq> 215
                  then char_of (of_char c + 32 :: nat) else c) d"
  unfolding lower_def by (rule map_cong [OF refl]) (rule lower_char_spec)

text \<open>
  Claim C1. For every description, \<open>risk_estimator_tool\<close> lower-cases the text (by
  the letter table above); its score is twice the number of the twelve high-risk
  keywords that occur in the lower-cased text as a substring plus the number of the
  nine medium-risk keywords that do; it answers \<open>high\<close> for a score of at least 3,
  \<open>medium\<close> for a score of 1 or 2 and \<open>low\<close> for the score 0, and these three cases
  are all there are. The function has no error branch: it is a total function from
  strings to strings. Three descriptions written with capitals show the three answers.
\<close>

theorem risk_estimator_tool_scoring:
  "lower d =
     map (\<lambda>c. case map_of (zip ''ABCDEFGHIJKLMNOPQRSTUVWXYZ'' ''abcdefghijklmnopqrstuvwxyz'') c of
                Some l \<Rightarrow> l
              | None \<Rightarrow>
                  if 192 \<le> (of_char c :: nat) \<and> (of_char c :: nat) \<le> 222 \<and>
                     (of_char c :: nat) \<noteq> 215
                  then char_of (of_char c + 32 :: nat) else c) d
   \<and> risk_score (lower d) =
     2 * int (card {kw \<in> {''brake'', ''braking'', ''steering'', ''train'', ''railway'',
                          ''high-voltage'', ''high voltage'', ''battery'', ''bms'',
                          ''powertrain'', ''airbag'', ''collision avoidance''}.
                    \<exists>pre suf. lower d = pre @ kw @ suf}) +
     int (card {kw \<in> {''monitor'', ''monitoring'', ''diagnostic'', ''diagnostics'',
                      ''emergency'', ''fail-safe'', ''failsafe'', ''stability control'',
                      ''safety monitoring''}.
                \<exists>pre suf. lower d = pre @ kw @ suf})
   \<and> risk_estimator_tool d =
       (if risk_score (lower d) \<ge> 3 then ''high''
        else if 1 \<le> risk_score (lower d) \<and> risk_score (lower d) < 3 then ''medium''
        else ''low'')
   \<and> (risk_score (lower d) \<ge> 3 \<or> (1 \<le> risk_score (lower d) \<and> risk_score (lower d) < 3)
        \<or> risk_score (lower d) = 0)
   \<and> risk_estimator_tool ''BRAKE system'' = ''medium''
   \<and> risk_estimator_tool ''Emergency BRAKING of a Train'' = ''high''
   \<and> risk_estimator_tool ''A step counter'' = ''low''"
proof -
  have score: "risk_score (lower d) =
     2 * int (card {kw \<in> {''brake'', ''braking'', ''steering'', ''train'', ''railway'',
                          ''high-voltage'', ''high voltage'', ''battery'', ''bms'',
                          ''powertrain'', ''airbag'', ''collision avoidance''}.
                    \<exists>pre suf. lower d = pre @ kw @ suf}) +
     int (card {kw \<in> {''monitor'', ''monitoring'', ''diagnostic'', ''diagnostics'',
                      ''emergency'', ''fail-safe'', ''failsafe'', ''stability control'',
                      ''safety monitoring''}.
                \<exists>pre suf. lower d = pre @ kw @ suf})"
    unfolding high_risk_set [symmetric] medium_risk_set [symmetric]
    by (simp only: risk_score_card contains_iff)
  have "0 \<le> risk_score (lower d)" unfolding risk_score_card by simp
  then have cases: "risk_score (lower d) \<ge> 3 \<or>
      (1 \<le> risk_score (lower d) \<and> risk_score (lower d) < 3) \<or> risk_score (lower d) = 0"
    by arith
  have tool: "risk_estimator_tool d =
       (if risk_score (lower d) \<ge> 3 then ''high''
        else if 1 \<le> risk_score (lower d) \<and> risk_score (lower d) < 3 then ''medium''
        else ''low'')"
    by (simp add: risk_estimator_tool_def Let_def)
  have e1: "risk_estimator_tool ''BRAKE system'' = ''medium''" by code_simp
  have e2: "risk_estimator_tool ''Emergency BRAKING of a Train'' = ''high''" by code_simp
  have e3: "risk_estimator_tool ''A step counter'' = ''low''" by code_simp
  show ?thesis
    by (intro conjI) (rule lower_spec score tool cases e1 e2 e3)+
qed

text \<open>
  Claim C8. A description in which both \<open>brake\<close> and \<open>high-voltage\<close> occur as
  substrings has a score of at least 4 and is classified \<open>high\<close>.
\<close>

theorem brake_high_voltage_is_high:
  assumes "d = p1 @ ''brake'' @ s1" and "d = p2 @ ''high-voltage'' @ s2"
  shows "risk_score (lower d) \<ge> 4 \<and> risk_estimator_tool d = ''high''"
proof -
  have lb: "lower ''brake'' = ''brake''" by code_simp
  have lh: "lower ''high-voltage'' = ''high-voltage''" by code_simp
  have cb: "contains ''brake'' (lower d)"
    using assms(1) contains_lower [OF lb] contains_iff by blast
  have ch: "contains ''high-voltage'' (lower d)"
    using assms(2) contains_lower [OF lh] contains_iff by blast
  have sub: "{''brake'', ''high-voltage''} \<subseteq> {kw \<in> set high_risk_keywords. contains kw (lower d)}"
    using cb ch by (simp add: high_risk_keywords_def)
  have "card {''brake'', ''high-voltage''} \<le> card {kw \<in> set high_risk_keywords. contains kw (lower d)}"
    by (rule card_mono [OF _ sub]) simp
  moreover have "card {''brake'', ''high-voltage''} = 2" by simp
  ultimately have "2 \<le> card {kw \<in> set high_risk_keywords. contains kw (lower d)}" by simp
  then have score: "4 \<le> risk_score (lower d)" unfolding risk_score_card by linarith
  then show ?thesis by (simp add: risk_estimator_tool_def Let_def)
qed

text \<open>The description \<open>brake high-voltage\<close> is such a description.\<close>

theorem brake_high_voltage_is_high_witness:
  "risk_score (lower ''brake high-voltage'') \<ge> 4 \<and> risk_estimator_tool ''brake high-voltage'' = ''high''"
proof -
  have h1: "''brake high-voltage'' = [] @ ''brake'' @ '' high-voltage''" by simp
  have h2: "''brake high-voltage'' = ''brake '' @ ''high-voltage'' @ []" by simp
  show ?thesis by (rule brake_high_voltage_is_high [OF h1 h2])
qed

lemma scan_keywords_sum:
  "scan_keywords w t kws score = score + (\<Sum>kw\<leftarrow>kws. if contains kw t then w else 0)"
  by (induction kws arbitrary: score) auto

lemma risk_score_sum:
  "risk_score t =
     (\<Sum>kw\<leftarrow>high_risk_keywords. if contains kw t then 2 else 0) +
     (\<Sum>kw\<leftarrow>medium_risk_keywords. if contains kw t then 1 else 0)"
  by (simp add: risk_score_def scan_keywords_sum)

lemma sum_list_if_cong:
  "(\<forall>kw \<in> set kws. P kw = Q kw) \<Longrightarrow>
   (\<Sum>kw\<leftarrow>kws. if P kw then w else (0::int)) = (\<Sum>kw\<leftarrow>kws. if Q kw then w else 0)"
  by (induction kws) auto

text \<open>
  Claim C9. Each keyword adds its weight to the score at most once: the score is the sum,
  over the keyword lists, of the weight of every keyword that occurs in the text, so two
  texts in which the same keywords occur have the same score, however often a keyword
  occurs. The description \<open>brake brake brake\<close> scores 2 and is classified
  \<open>medium\<close>.
\<close>

theorem keyword_counts_once:
  "risk_score t =
     (\<Sum>kw\<leftarrow>high_risk_keywords. if contains kw t then 2 else 0) +
     (\<Sum>kw\<leftarrow>medium_risk_keywords. if contains kw t then 1 else 0)
   \<and> ((\<forall>kw \<in> set (high_risk_keywords @ medium_risk_keywords). contains kw t1 = contains kw t2)
        \<longrightarrow> risk_score t1 = risk_score t2)
   \<and> risk_score (lower ''brake brake brake'') = 2
   \<and> risk_estimator_tool ''brake brake brake'' = ''medium''"
proof (intro conjI impI)
  show "risk_score t =
     (\<Sum>kw\<leftarrow>high_risk_keywords. if contains kw t then 2 else 0) +
     (\<Sum>kw\<leftarrow>medium_risk_keywords. if contains kw t then 1 else 0)"
    by (rule risk_score_sum)
next
  assume same: "\<forall>kw \<in> set (high_risk_keywords @ medium_risk_keywords). contains kw t1 = contains kw t2"
  have h: "\<forall>kw \<in> set high_risk_keywords. contains kw t1 = contains kw t2"
    using same by simp
  have m: "\<forall>kw \<in> set medium_risk_keywords. contains kw t1 = contains kw t2"
    using same by simp
  show "risk_score t1 = risk_score t2"
    unfolding risk_score_sum
    using sum_list_if_cong [OF h] sum_list_if_cong [OF m] by simp
next
  show "risk_score (lower ''brake brake brake'') = 2" by code_simp
next
  show "risk_estimator_tool ''brake brake brake'' = ''medium''" by code_simp
qed

text \<open>
  The same keywords occur in \<open>brake\<close> and in \<open>brake brake brake\<close>, so the two
  texts score the same.
\<close>

theorem keyword_counts_once_witness:
  "risk_score ''brake'' = risk_score ''brake brake brake''"
proof -
  have h: "\<forall>kw \<in> set (high_risk_keywords @ medium_risk_keywords).
             contains kw ''brake'' = contains kw ''brake brake brake''"
    by (simp add: high_risk_keywords_def medium_risk_keywords_def)
  have "(\<forall>kw \<in> set (high_risk_keywords @ medium_risk_keywords).
             contains kw ''brake'' = contains kw ''brake brake brake'')
        \<longrightarrow> risk_score ''brake'' = risk_score ''brake brake brake''"
    using keyword_counts_once [of "[]" "''brake''" "''brake brake brake''"] by (elim conjE)
  with h show ?thesis by (rule rev_mp)
qed

section \<open>Properties of standard\_lookup\_tool\<close>








section \<open>Properties of checklist\_formatter\_tool\<close>

lemma first_seen_snoc:
  "first_seen (xs @ [x]) = (if x \<in> set xs then first_seen xs else first_seen xs @ [x])"
  by (simp add: first_seen_def)

lemma set_first_seen: "set (first_seen xs) = set xs"
  by (simp add: first_seen_def)

lemma distinct_first_seen: "distinct (first_seen xs)"
  by (simp add: first_seen_def)

lemma setdefault_append_map:
  "distinct ks \<Longrightarrow>
   setdefault_append (map (\<lambda>q. (q, f q)) ks) p l =
     (if p \<in> set ks then map (\<lambda>q. (q, if q = p then f q @ [l] else f q)) ks
      else map (\<lambda>q. (q, f q)) ks @ [(p, [l])])"
  by (induction ks) auto

lemma lines_of_snoc:
  "lines_of (kept @ [(p, d)]) q = lines_of kept q @ (if p = q then [''- [ ] '' @ d] else [])"
  by (simp add: lines_of_def)

lemma lines_of_absent: "p \<notin> set (map fst kept) \<Longrightarrow> lines_of kept p = []"
  by (induction kept) (auto simp: lines_of_def)

lemma group_lines_snoc:
  "setdefault_append (group_lines kept) p (''- [ ] '' @ d) = group_lines (kept @ [(p, d)])"
proof (cases "p \<in> set (map fst kept)")
  case True
  then have "setdefault_append (group_lines kept) p (''- [ ] '' @ d) =
      map (\<lambda>q. (q, if q = p then lines_of kept q @ [''- [ ] '' @ d] else lines_of kept q))
        (first_seen (map fst kept))"
    by (simp add: group_lines_def setdefault_append_map distinct_first_seen set_first_seen)
  also have "\<dots> = map (\<lambda>q. (q, lines_of (kept @ [(p, d)]) q)) (first_seen (map fst kept))"
    by (rule map_cong) (auto simp: lines_of_snoc)
  also have "\<dots> = group_lines (kept @ [(p, d)])"
    using True by (simp add: group_lines_def first_seen_snoc)
  finally show ?thesis .
next
  case False
  then have "setdefault_append (group_lines kept) p (''- [ ] '' @ d) =
      map (\<lambda>q. (q, lines_of kept q)) (first_seen (map fst kept)) @ [(p, [''- [ ] '' @ d])]"
    by (simp add: group_lines_def setdefault_append_map distinct_first_seen set_first_seen)
  also have "map (\<lambda>q. (q, lines_of kept q)) (first_seen (map fst kept)) =
      map (\<lambda>q. (q, lines_of (kept @ [(p, d)]) q)) (first_seen (map fst kept))"
    using False by (intro map_cong) (auto simp: lines_of_snoc set_first_seen)
  also have "[(p, [''- [ ] '' @ d])] = [(p, lines_of (kept @ [(p, d)]) p)]"
    using False by (simp add: lines_of_snoc lines_of_absent)
  finally show ?thesis
    using False by (simp add: group_lines_def first_seen_snoc)
qed

lemma add_lines_append: "add_lines (xs @ ys) grouped = add_lines ys (add_lines xs grouped)"
  by (induction xs grouped rule: add_lines.induct) auto

lemma format_tasks_kept: "format_tasks tasks grouped = add_lines (kept_tasks tasks) grouped"
  by (induction tasks arbitrary: grouped) (auto simp: kept_tasks_def Let_def)

lemma add_lines_group: "add_lines kept [] = group_lines kept"
proof (induction kept rule: rev_induct)
  case Nil
  then show ?case by (simp add: group_lines_def first_seen_def)
next
  case (snoc x kept)
  obtain p d where x: "x = (p, d)" by (cases x)
  show ?case
    using group_lines_snoc [of kept p d] by (simp add: add_lines_append snoc.IH x)
qed

lemma checklist_formatter_tool_eq: "checklist_formatter_tool tasks = spec_format tasks"
  by (simp add: checklist_formatter_tool_def spec_format_def format_tasks_kept add_lines_group)

lemma last_dropWhile: "dropWhile P xs \<noteq> [] \<Longrightarrow> last (dropWhile P xs) = last xs"
  by (induction xs) (auto split: if_splits)

lemma strip_trimmed:
  assumes "strip s \<noteq> []"
  shows "\<not> isspace (hd (strip s)) \<and> \<not> isspace (last (strip s))"
proof -
  let ?a = "dropWhile isspace s"
  let ?b = "dropWhile isspace (rev ?a)"
  have b: "?b \<noteq> []" using assms by (simp add: strip_def)
  have a: "?a \<noteq> []"
  proof
    assume "?a = []"
    then have "?b = []" by (simp only: rev.simps dropWhile.simps)
    with b show False by contradiction
  qed
  have "last (strip s) = hd ?b" using b by (simp add: strip_def last_rev)
  moreover have "\<not> isspace (hd ?b)" using b by (rule hd_dropWhile)
  moreover have "hd (strip s) = last ?b" using b by (simp add: strip_def hd_rev)
  moreover have "last ?b = last (rev ?a)" using b by (rule last_dropWhile)
  moreover have "last (rev ?a) = hd ?a" using a by (simp add: last_rev)
  moreover have "\<not> isspace (hd ?a)" using a by (rule hd_dropWhile)
  ultimately show ?thesis by simp
qed

lemma lines_of_mem:
  "l \<in> set (lines_of kept p) \<longleftrightarrow> (\<exists>d. (p, d) \<in> set kept \<and> l = ''- [ ] '' @ d)"
  by (induction kept) (auto simp: lines_of_def)

lemma lines_of_nonempty: "p \<in> set (map fst kept) \<Longrightarrow> lines_of kept p \<noteq> []"
  by (induction kept) (auto simp: lines_of_def)

lemma kept_tasks_mem:
  "(p, d) \<in> set (kept_tasks tasks) \<longleftrightarrow>
     (\<exists>t \<in> set tasks. p = dict_get t ''phase'' ''general'' \<and>
        d = strip (dict_get t ''description'' []) \<and> d \<noteq> [])"
  by (auto simp: kept_tasks_def)

lemma dict_get_phase:
  "p = dict_get t ''phase'' ''general'' \<longleftrightarrow>
     (map_of t ''phase'' = Some p \<or> (map_of t ''phase'' = None \<and> p = ''general''))"
  by (auto simp: dict_get_def split: option.splits)

lemma isspace_codes:
  "isspace c \<longleftrightarrow>
     (of_char c :: nat) \<in> {9, 10, 11, 12, 13, 28, 29, 30, 31, 32, 133, 160}"
  unfolding isspace_def Let_def by (simp only: insert_iff empty_iff) arith

lemma strip_decompose:
  "\<exists>pre suf. s = pre @ strip s @ suf \<and> list_all isspace pre \<and> list_all isspace suf"
proof -
  let ?a = "dropWhile isspace s"
  have 1: "s = takeWhile isspace s @ ?a" by simp
  have 2: "?a = strip s @ rev (takeWhile isspace (rev ?a))"
    by (metis rev_append rev_rev_ident strip_def takeWhile_dropWhile_id)
  have 3: "list_all isspace (takeWhile isspace s)"
    by (simp add: list_all_iff) (meson set_takeWhileD)
  have 4: "list_all isspace (rev (takeWhile isspace (rev ?a)))"
    by (simp add: list_all_iff) (meson set_takeWhileD)
  from 1 2 have "s = takeWhile isspace s @ strip s @ rev (takeWhile isspace (rev ?a))"
    by metis
  with 3 4 show ?thesis by blast
qed

lemma strip_spec:
  "(\<exists>pre suf. s = pre @ strip s @ suf \<and>
       set (map of_char pre) \<subseteq> {9, 10, 11, 12, 13, 28, 29, 30, 31, 32, 133, 160 :: nat} \<and>
       set (map of_char suf) \<subseteq> {9, 10, 11, 12, 13, 28, 29, 30, 31, 32, 133, 160 :: nat})
   \<and> (strip s = [] \<or>
        ((of_char (hd (strip s)) :: nat) \<notin> {9, 10, 11, 12, 13, 28, 29, 30, 31, 32, 133, 160} \<and>
         (of_char (last (strip s)) :: nat) \<notin> {9, 10, 11, 12, 13, 28, 29, 30, 31, 32, 133, 160}))"
proof
  obtain pre suf where d: "s = pre @ strip s @ suf" "list_all isspace pre" "list_all isspace suf"
    using strip_decompose by blast
  have "set (map of_char pre) \<subseteq> {9, 10, 11, 12, 13, 28, 29, 30, 31, 32, 133, 160 :: nat}"
    using d(2) unfolding list_all_iff isspace_codes by auto
  moreover have "set (map of_char suf) \<subseteq> {9, 10, 11, 12, 13, 28, 29, 30, 31, 32, 133, 160 :: nat}"
    using d(3) unfolding list_all_iff isspace_codes by auto
  ultimately show "\<exists>pre suf. s = pre @ strip s @ suf \<and>
       set (map of_char pre) \<subseteq> {9, 10, 11, 12, 13, 28, 29, 30, 31, 32, 133, 160 :: nat} \<and>
       set (map of_char suf) \<subseteq> {9, 10, 11, 12, 13, 28, 29, 30, 31, 32, 133, 160 :: nat}"
    using d(1) by blast
next
  show "strip s = [] \<or>
        ((of_char (hd (strip s)) :: nat) \<notin> {9, 10, 11, 12, 13, 28, 29, 30, 31, 32, 133, 160} \<and>
         (of_char (last (strip s)) :: nat) \<notin> {9, 10, 11, 12, 13, 28, 29, 30, 31, 32, 133, 160})"
    using strip_trimmed [of s] unfolding isspace_codes by blast
qed

lemma spec_format_unfolded:
  "spec_format tasks =
     (let kept =
        [(case map_of t ''phase'' of None \<Rightarrow> ''general'' | Some p \<Rightarrow> p,
          strip (case map_of t ''description'' of None \<Rightarrow> [] | Some d \<Rightarrow> d)).
           t \<leftarrow> tasks,
           strip (case map_of t ''description'' of None \<Rightarrow> [] | Some d \<Rightarrow> d) \<noteq> []]
      in map (\<lambda>p. (p, [''- [ ] '' @ d. (q, d) \<leftarrow> kept, q = p]))
           (rev (remdups (rev (map fst kept)))))"
  unfolding spec_format_def group_lines_def kept_tasks_def lines_of_def first_seen_def
    dict_get_def Let_def
  by (rule refl)

text \<open>
  Claim C3. For every list of tasks, \<open>checklist_formatter_tool\<close> drops a task whose
  description is missing or empty after trimming, takes \<open>general\<close> for a missing
  phase, lists the phases in first-seen order and gives each phase the lines
  \<open>- [ ]\<close> plus trimmed description of its tasks in input order (this is
  \<open>spec_format\<close>, written out in the first equation). Trimming is what \<open>strip\<close>
  does: it cuts a string into white space, the result and white space, and the result
  is empty or has no white space at either end; the white space characters are those
  with the codes 9 to 13, 28 to 32, 133 and 160. The three tasks A, B (phase concept) and
  C (phase verification) give concept with the lines of A and B, then verification with
  the line of C. In the second list the tasks with a blank, missing or empty
  description are dropped, the descriptions are trimmed, and the tasks without a phase
  come under \<open>general\<close>, the first phase seen.
\<close>

theorem checklist_formatter_tool_groups:
  "checklist_formatter_tool tasks =
     (let kept =
        [(case map_of t ''phase'' of None \<Rightarrow> ''general'' | Some p \<Rightarrow> p,
          strip (case map_of t ''description'' of None \<Rightarrow> [] | Some d \<Rightarrow> d)).
           t \<leftarrow> tasks,
           strip (case map_of t ''description'' of None \<Rightarrow> [] | Some d \<Rightarrow> d) \<noteq> []]
      in map (\<lambda>p. (p, [''- [ ] '' @ d. (q, d) \<leftarrow> kept, q = p]))
           (rev (remdups (rev (map fst kept)))))
   \<and> checklist_formatter_tool tasks = spec_format tasks
   \<and> (\<exists>pre suf. s = pre @ strip s @ suf \<and>
         set (map of_char pre) \<subseteq> {9, 10, 11, 12, 13, 28, 29, 30, 31, 32, 133, 160 :: nat} \<and>
         set (map of_char suf) \<subseteq> {9, 10, 11, 12, 13, 28, 29, 30, 31, 32, 133, 160 :: nat})
   \<and> (strip s = [] \<or>
        ((of_char (hd (strip s)) :: nat) \<notin> {9, 10, 11, 12, 13, 28, 29, 30, 31, 32, 133, 160} \<and>
         (of_char (last (strip s)) :: nat) \<notin> {9, 10, 11, 12, 13, 28, 29, 30, 31, 32, 133, 160}))
   \<and> checklist_formatter_tool
        [[(''phase'', ''concept''), (''description'', ''A'')],
         [(''phase'', ''concept''), (''description'', ''B'')],
         [(''phase'', ''verification''), (''description'', ''C'')]] =
       [(''concept'', [''- [ ] A'', ''- [ ] B'']), (''verification'', [''- [ ] C''])]
   \<and> checklist_formatter_tool
        [[(''phase'', ''design''), (''description'', ''   '')],
         [(''description'', ''  Define safety goals \<newline>'')],
         [(''phase'', ''design''), (''topic'', ''controls'')],
         [(''phase'', ''design''), (''description'', '''')],
         [(''phase'', ''design''), (''description'', ''\<newline> Review  the design'')],
         [(''topic'', ''HARA''), (''description'', ''Perform HARA'')]] =
       [(''general'', [''- [ ] Define safety goals'', ''- [ ] Perform HARA'']),
        (''design'', [''- [ ] Review  the design''])]"
proof -
  have eq: "checklist_formatter_tool tasks = spec_format tasks"
    by (rule checklist_formatter_tool_eq)
  have unf: "checklist_formatter_tool tasks =
     (let kept =
        [(case map_of t ''phase'' of None \<Rightarrow> ''general'' | Some p \<Rightarrow> p,
          strip (case map_of t ''description'' of None \<Rightarrow> [] | Some d \<Rightarrow> d)).
           t \<leftarrow> tasks,
           strip (case map_of t ''description'' of None \<Rightarrow> [] | Some d \<Rightarrow> d) \<noteq> []]
      in map (\<lambda>p. (p, [''- [ ] '' @ d. (q, d) \<leftarrow> kept, q = p]))
           (rev (remdups (rev (map fst kept)))))"
    unfolding eq by (rule spec_format_unfolded)
  have s1: "\<exists>pre suf. s = pre @ strip s @ suf \<and>
         set (map of_char pre) \<subseteq> {9, 10, 11, 12, 13, 28, 29, 30, 31, 32, 133, 160 :: nat} \<and>
         set (map of_char suf) \<subseteq> {9, 10, 11, 12, 13, 28, 29, 30, 31, 32, 133, 160 :: nat}"
    using strip_spec [of s] by (rule conjunct1)
  have s2: "strip s = [] \<or>
        ((of_char (hd (strip s)) :: nat) \<notin> {9, 10, 11, 12, 13, 28, 29, 30, 31, 32, 133, 160} \<and>
         (of_char (last (strip s)) :: nat) \<notin> {9, 10, 11, 12, 13, 28, 29, 30, 31, 32, 133, 160})"
    using strip_spec [of s] by (rule conjunct2)
  have e1: "checklist_formatter_tool
        [[(''phase'', ''concept''), (''description'', ''A'')],
         [(''phase'', ''concept''), (''description'', ''B'')],
         [(''phase'', ''verification''), (''description'', ''C'')]] =
       [(''concept'', [''- [ ] A'', ''- [ ] B'']), (''verification'', [''- [ ] C''])]"
    by code_simp
  have e2: "checklist_formatter_tool
        [[(''phase'', ''design''), (''description'', ''   '')],
         [(''description'', ''  Define safety goals \<newline>'')],
         [(''phase'', ''design''), (''topic'', ''controls'')],
         [(''phase'', ''design''), (''description'', '''')],
         [(''phase'', ''design''), (''description'', ''\<newline> Review  the design'')],
         [(''topic'', ''HARA''), (''description'', ''Perform HARA'')]] =
       [(''general'', [''- [ ] Define safety goals'', ''- [ ] Perform HARA'']),
        (''design'', [''- [ ] Review  the design''])]"
    by code_simp
  show ?thesis
    by (intro conjI) (rule unf eq s1 s2 e1 e2)+
qed

text \<open>
  Claim C10. Every phase key of the result maps to a non-empty list of lines, and every
  line under a key is \<open>- [ ]\<close> followed by the trimmed description of an input task
  that has that phase (or no phase, for the key \<open>general\<close>); that description is not
  empty and neither starts nor ends with white space. So a key appears only when such
  a task exists.
\<close>

theorem checklist_lines_wellformed:
  "\<forall>(p, ls) \<in> set (checklist_formatter_tool tasks).
      ls \<noteq> [] \<and>
      (\<forall>l \<in> set ls. \<exists>t \<in> set tasks.
          (map_of t ''phase'' = Some p \<or> (map_of t ''phase'' = None \<and> p = ''general'')) \<and>
          strip (dict_get t ''description'' []) \<noteq> [] \<and>
          \<not> isspace (hd (strip (dict_get t ''description'' []))) \<and>
          \<not> isspace (last (strip (dict_get t ''description'' []))) \<and>
          l = ''- [ ] '' @ strip (dict_get t ''description'' []))"
proof (intro ballI, clarify, intro conjI ballI)
  fix p ls
  assume mem: "(p, ls) \<in> set (checklist_formatter_tool tasks)"
  then have p: "p \<in> set (map fst (kept_tasks tasks))" and ls: "ls = lines_of (kept_tasks tasks) p"
    by (auto simp: checklist_formatter_tool_eq spec_format_def group_lines_def set_first_seen)
  from p show "ls \<noteq> []" unfolding ls by (rule lines_of_nonempty)
  fix l
  assume "l \<in> set ls"
  then obtain d where d: "(p, d) \<in> set (kept_tasks tasks)" and l: "l = ''- [ ] '' @ d"
    unfolding ls lines_of_mem by blast
  from d obtain t where t: "t \<in> set tasks" "p = dict_get t ''phase'' ''general''"
      "d = strip (dict_get t ''description'' [])" "d \<noteq> []"
    unfolding kept_tasks_mem by blast
  have "strip (dict_get t ''description'' []) \<noteq> []" using t by simp
  from strip_trimmed [OF this] t l
  show "\<exists>t \<in> set tasks.
          (map_of t ''phase'' = Some p \<or> (map_of t ''phase'' = None \<and> p = ''general'')) \<and>
          strip (dict_get t ''description'' []) \<noteq> [] \<and>
          \<not> isspace (hd (strip (dict_get t ''description'' []))) \<and>
          \<not> isspace (last (strip (dict_get t ''description'' []))) \<and>
          l = ''- [ ] '' @ strip (dict_get t ''description'' [])"
    using dict_get_phase [of p t] by (intro bexI [of _ t]) simp_all
qed

text \<open>
  The task list with the single task of description \<open>x\<close> between blanks and no
  phase: the key \<open>general\<close> holds the one line of that task.
\<close>

theorem checklist_lines_wellformed_witness:
  "[''- [ ] x''] \<noteq> [] \<and>
   (\<exists>t \<in> set [[(''description'', '' x '')]].
      (map_of t ''phase'' = Some ''general'' \<or> (map_of t ''phase'' = None \<and> ''general'' = ''general'')) \<and>
      strip (dict_get t ''description'' []) \<noteq> [] \<and>
      \<not> isspace (hd (strip (dict_get t ''description'' []))) \<and>
      \<not> isspace (last (strip (dict_get t ''description'' []))) \<and>
      ''- [ ] x'' = ''- [ ] '' @ strip (dict_get t ''description'' []))"
proof -
  have mem: "(''general'', [''- [ ] x'']) \<in> set (checklist_formatter_tool [[(''description'', '' x '')]])"
    by code_simp
  have l: "''- [ ] x'' \<in> set [''- [ ] x'']" by simp
  from checklist_lines_wellformed [of "[[(''description'', '' x '')]]"] mem
  have "case (''general'', [''- [ ] x'']) of (p, ls) \<Rightarrow>
      ls \<noteq> [] \<and>
      (\<forall>l \<in> set ls. \<exists>t \<in> set [[(''description'', '' x '')]].
          (map_of t ''phase'' = Some p \<or> (map_of t ''phase'' = None \<and> p = ''general'')) \<and>
          strip (dict_get t ''description'' []) \<noteq> [] \<and>
          \<not> isspace (hd (strip (dict_get t ''description'' []))) \<and>
          \<not> isspace (last (strip (dict_get t ''description'' []))) \<and>
          l = ''- [ ] '' @ strip (dict_get t ''description'' []))"
    by (rule bspec)
  then have c: "[''- [ ] x''] \<noteq> [] \<and>
      (\<forall>l \<in> set [''- [ ] x'']. \<exists>t \<in> set [[(''description'', '' x '')]].
          (map_of t ''phase'' = Some ''general'' \<or> (map_of t ''phase'' = None \<and> ''general'' = ''general'')) \<and>
          strip (dict_get t ''description'' []) \<noteq> [] \<and>
          \<not> isspace (hd (strip (dict_get t ''description'' []))) \<and>
          \<not> isspace (last (strip (dict_get t ''description'' []))) \<and>
          l = ''- [ ] '' @ strip (dict_get t ''description'' []))"
    by (rule case_prodD)
  from c have c1: "[''- [ ] x''] \<noteq> []" by (rule conjunct1)
  from c have c2: "\<forall>l \<in> set [''- [ ] x'']. \<exists>t \<in> set [[(''description'', '' x '')]].
          (map_of t ''phase'' = Some ''general'' \<or> (map_of t ''phase'' = None \<and> ''general'' = ''general'')) \<and>
          strip (dict_get t ''description'' []) \<noteq> [] \<and>
          \<not> isspace (hd (strip (dict_get t ''description'' []))) \<and>
          \<not> isspace (last (strip (dict_get t ''description'' []))) \<and>
          l = ''- [ ] '' @ strip (dict_get t ''description'' [])" by (rule conjunct2)
  from c1 bspec [OF c2 l] show ?thesis by (rule conjI)
qed

section \<open>Properties of the evaluator's keyword matching\<close>

lemma keyword_match_lower: "keyword_match t kw = spec_covered t (lower kw)"
  by (simp add: keyword_match_def spec_covered_def replace_underscores_def Let_def)

lemma count_covered_filter:
  "count_covered t expected covered =
     covered + int (length (filter (\<lambda>kw. spec_covered t (lower kw)) expected))"
  by (induction expected arbitrary: covered) (auto simp: keyword_match_lower)

text \<open>
  Claim C4 as it is stated, with the rules applied to the keyword as given, fails for a
  keyword written in capitals: on the text \<open>hara\<close> the evaluator counts the expected
  keyword \<open>HARA\<close> as covered, and by the stated rules \<open>HARA\<close> is some other keyword
  that the lower-case text does not contain.
\<close>

theorem keyword_given_in_capitals:
  "keyword_match ''hara'' ''HARA'' \<and> \<not> spec_covered ''hara'' ''HARA''"
  by code_simp

lemma count_covered_match:
  "count_covered t expected covered =
     covered + int (length (filter (keyword_match t) expected))"
  by (induction expected arbitrary: covered) auto

lemma keyword_match_hara:
  "lower kw = ''hara'' \<Longrightarrow>
   keyword_match t kw =
     ((\<exists>pre suf. t = pre @ ''hara'' @ suf) \<or> (\<exists>pre suf. t = pre @ ''hazard analysis'' @ suf))"
  by (simp add: keyword_match_def Let_def contains_iff)

lemma keyword_match_verification_plan:
  "lower kw = ''verification_plan'' \<Longrightarrow>
   keyword_match t kw =
     (((\<exists>pre suf. t = pre @ ''verification'' @ suf) \<and> (\<exists>pre suf. t = pre @ ''plan'' @ suf))
      \<or> (\<exists>pre suf. t = pre @ ''test plan'' @ suf))"
  by (simp add: keyword_match_def Let_def contains_iff)

lemma keyword_match_other:
  "lower kw \<noteq> ''hara'' \<and> lower kw \<noteq> ''verification_plan'' \<Longrightarrow>
   keyword_match t kw =
     (\<exists>pre suf. t = pre @ map (\<lambda>c. if c = CHR ''_'' then CHR '' '' else c) (lower kw) @ suf)"
  by (simp add: keyword_match_def Let_def contains_iff replace_underscores_def)

text \<open>
  Claim C4, amended. The evaluator first lower-cases the expected keyword, and the rules
  apply to the lower-cased keyword \<open>k\<close>: \<open>hara\<close> is covered iff the text contains
  \<open>hara\<close> or \<open>hazard analysis\<close>; \<open>verification_plan\<close> is covered iff the text
  contains both \<open>verification\<close> and \<open>plan\<close>, or \<open>test plan\<close>; any other \<open>k\<close> is
  covered iff the text contains \<open>k\<close> with every underscore replaced by a space. These
  are the rules \<open>spec_covered\<close> at the lower-cased keyword, and the count of covered
  keywords is the number of expected keywords that match. A text that contains
  \<open>hazard analysis\<close> and not \<open>hara\<close> covers the keyword \<open>hara\<close>. Six cases show
  the rules at work: \<open>Safety_Goals\<close> is found as \<open>safety goals\<close> and not as
  \<open>safety_goals\<close>, \<open>VERIFICATION_PLAN\<close> is found by \<open>test plan\<close> or by both
  words and not by \<open>verification\<close> alone, and \<open>HARA\<close> is not found in a text
  without \<open>hara\<close> and \<open>hazard analysis\<close>.
\<close>

theorem keyword_match_rules:
  "(lower kw = ''hara'' \<longrightarrow>
      keyword_match text_lower kw =
        ((\<exists>pre suf. text_lower = pre @ ''hara'' @ suf) \<or>
         (\<exists>pre suf. text_lower = pre @ ''hazard analysis'' @ suf)))
   \<and> (lower kw = ''verification_plan'' \<longrightarrow>
      keyword_match text_lower kw =
        (((\<exists>pre suf. text_lower = pre @ ''verification'' @ suf) \<and>
          (\<exists>pre suf. text_lower = pre @ ''plan'' @ suf)) \<or>
         (\<exists>pre suf. text_lower = pre @ ''test plan'' @ suf)))
   \<and> (lower kw \<noteq> ''hara'' \<and> lower kw \<noteq> ''verification_plan'' \<longrightarrow>
      keyword_match text_lower kw =
        (\<exists>pre suf. text_lower =
           pre @ map (\<lambda>c. if c = CHR ''_'' then CHR '' '' else c) (lower kw) @ suf))
   \<and> keyword_match text_lower kw = spec_covered text_lower (lower kw)
   \<and> count_covered text_lower expected 0 =
       int (length (filter (keyword_match text_lower) expected))
   \<and> ((\<exists>pre suf. text_lower = pre @ ''hazard analysis'' @ suf) \<and>
        \<not> (\<exists>pre suf. text_lower = pre @ ''hara'' @ suf)
        \<longrightarrow> keyword_match text_lower ''hara'')
   \<and> keyword_match ''define the safety goals'' ''Safety_Goals''
   \<and> \<not> keyword_match ''safety_goals'' ''safety_goals''
   \<and> keyword_match ''unit test plan'' ''VERIFICATION_PLAN''
   \<and> \<not> keyword_match ''verification of the design'' ''verification_plan''
   \<and> keyword_match ''plan the verification'' ''verification_plan''
   \<and> \<not> keyword_match ''hazards analysed'' ''HARA''"
proof (intro conjI impI)
  assume "lower kw = ''hara''"
  then show "keyword_match text_lower kw =
        ((\<exists>pre suf. text_lower = pre @ ''hara'' @ suf) \<or>
         (\<exists>pre suf. text_lower = pre @ ''hazard analysis'' @ suf))"
    by (rule keyword_match_hara)
next
  assume "lower kw = ''verification_plan''"
  then show "keyword_match text_lower kw =
        (((\<exists>pre suf. text_lower = pre @ ''verification'' @ suf) \<and>
          (\<exists>pre suf. text_lower = pre @ ''plan'' @ suf)) \<or>
         (\<exists>pre suf. text_lower = pre @ ''test plan'' @ suf))"
    by (rule keyword_match_verification_plan)
next
  assume "lower kw \<noteq> ''hara'' \<and> lower kw \<noteq> ''verification_plan''"
  then show "keyword_match text_lower kw =
        (\<exists>pre suf. text_lower =
           pre @ map (\<lambda>c. if c = CHR ''_'' then CHR '' '' else c) (lower kw) @ suf)"
    by (rule keyword_match_other)
next
  show "keyword_match text_lower kw = spec_covered text_lower (lower kw)"
    by (rule keyword_match_lower)
next
  show "count_covered text_lower expected 0 =
       int (length (filter (keyword_match text_lower) expected))"
    by (simp add: count_covered_match)
next
  assume "(\<exists>pre suf. text_lower = pre @ ''hazard analysis'' @ suf) \<and>
        \<not> (\<exists>pre suf. text_lower = pre @ ''hara'' @ suf)"
  then have "contains ''hazard analysis'' text_lower"
    unfolding contains_iff by (rule conjunct1)
  moreover have "lower ''hara'' = ''hara''" by code_simp
  ultimately show "keyword_match text_lower ''hara''"
    by (simp add: keyword_match_def Let_def)
next
  show "keyword_match ''define the safety goals'' ''Safety_Goals''" by code_simp
next
  show "\<not> keyword_match ''safety_goals'' ''safety_goals''" by code_simp
next
  show "keyword_match ''unit test plan'' ''VERIFICATION_PLAN''" by code_simp
next
  show "\<not> keyword_match ''verification of the design'' ''verification_plan''" by code_simp
next
  show "keyword_match ''plan the verification'' ''verification_plan''" by code_simp
next
  show "\<not> keyword_match ''hazards analysed'' ''HARA''" by code_simp
qed

text \<open>The text \<open>hazard analysis\<close> contains \<open>hazard analysis\<close> and not \<open>hara\<close>.\<close>

theorem keyword_match_rules_witness:
  "keyword_match ''hazard analysis'' ''hara''"
proof -
  have h1: "\<exists>pre suf. ''hazard analysis'' = pre @ ''hazard analysis'' @ suf"
    unfolding contains_iff [symmetric] by code_simp
  have h2: "\<not> (\<exists>pre suf. ''hazard analysis'' = pre @ ''hara'' @ suf)"
    unfolding contains_iff [symmetric] by code_simp
  have "(\<exists>pre suf. ''hazard analysis'' = pre @ ''hazard analysis'' @ suf) \<and>
        \<not> (\<exists>pre suf. ''hazard analysis'' = pre @ ''hara'' @ suf)
        \<longrightarrow> keyword_match ''hazard analysis'' ''hara''"
    using keyword_match_rules [of "''hara''" "''hazard analysis''" "[]"] by (elim conjE)
  with conjI [OF h1 h2] show ?thesis by (rule rev_mp)
qed

section \<open>Properties of run\_pipeline\_get\_text\<close>

lemma run_uninitialized:
  "planner_runner ag = None \<or> checker_runner ag = None \<Longrightarrow>
   run_pipeline_get_text ag sys standard w = (Inl not_initialized, w)"
  by (simp add: run_pipeline_get_text_def)

lemma run_initialized:
  "planner_runner ag \<noteq> None \<Longrightarrow> checker_runner ag \<noteq> None \<Longrightarrow>
   \<exists>res. fst (run_pipeline_get_text ag sys standard w) = Inr res"
  by (simp add: run_pipeline_get_text_def Let_def split: prod.splits)

text \<open>
  Claim C5. The test for \<open>None\<close> is the first statement of the pipeline, and it reads
  eval.py's own two names. When eval.py is loaded before the setup has run, as the
  usage in agents.py's docstring has it, the setup initializes both runners of
  agents.py and eval.py's names stay \<open>None\<close>: the pipeline fails with
  \<open>not_initialized\<close>, the service state as it was, although neither runner is
  uninitialized. So the error is not raised only if a runner is uninitialized.
\<close>

theorem initialized_runners_rejected:
  "planner_runner
     (agents_names (setup_sessions_and_runners (Some p) (Some c) (import_eval load_agents)))
     = Some p
   \<and> checker_runner
     (agents_names (setup_sessions_and_runners (Some p) (Some c) (import_eval load_agents)))
     = Some c
   \<and> run_pipeline_get_text
     (eval_names (setup_sessions_and_runners (Some p) (Some c) (import_eval load_agents)))
     sys standard w
     = (Inl not_initialized, w)
   \<and> not_initialized = RuntimeError ''Agents (Planner/Checker) are not initialized.''"
  by (simp add: setup_sessions_and_runners_def import_eval_def load_agents_def
      run_pipeline_get_text_def not_initialized_def)

lemma capture_final_Cons:
  "capture_final (ev # events) captured =
     capture_final events
       (if has_text ev then part_text (hd (parts (the (content ev)))) else captured)"
  by (simp add: has_text_def)

lemma capture_final_filter:
  "capture_final events captured =
     (case filter has_text events of
        [] \<Rightarrow> captured
      | f # fs \<Rightarrow> part_text (hd (parts (the (content (last (f # fs)))))))"
proof (induction events arbitrary: captured)
  case Nil
  then show ?case by simp
next
  case (Cons ev events)
  show ?case
  proof (cases "filter has_text events")
    case Nil
    then show ?thesis
      by (simp only: capture_final_Cons Cons.IH filter.simps list.case last.simps split: if_splits)
        simp
  next
    case (Cons g gs)
    then show ?thesis
      by (simp only: capture_final_Cons Cons.IH filter.simps list.case last.simps split: if_splits)
        simp
  qed
qed

lemma run_both:
  assumes "planner_runner ag = Some planner" and "checker_runner ag = Some checker"
  shows "(let pr = planner USER_ID SESSION_ID_PLANNER
                (Content ''user''
                  [Part (planner_input (description sys) (domain sys) standard
                          (risk_estimator_tool (description sys)))]) w;
              planner_text = capture_final (fst pr) [];
              cr = checker USER_ID SESSION_ID_CHECKER
                (Content ''user''
                  [Part (checker_input (description sys) (domain sys) standard
                          (risk_estimator_tool (description sys)) planner_text)]) (snd pr)
          in run_pipeline_get_text ag sys standard w = (Inr (capture_final (fst cr) []), snd cr))"
  using assms by (simp add: run_pipeline_get_text_def Let_def split: prod.splits)

text \<open>
  Claim C7 as it is stated fails when the last final-response event of a stream has no
  content: the loop skips that event and keeps the text \<open>A\<close> of the final-response
  event before it, while the last final-response event carries no text.
\<close>

theorem last_final_event_without_content:
  "capture_final
     [\<lparr>is_final_response = True, content = Some (Content ''model'' [Part ''A''])\<rparr>,
      \<lparr>is_final_response = True, content = None\<rparr>] []
   \<noteq> spec_capture
     [\<lparr>is_final_response = True, content = Some (Content ''model'' [Part ''A''])\<rparr>,
      \<lparr>is_final_response = True, content = None\<rparr>]"
  by (simp add: spec_capture_def carried_text_def)

text \<open>
  Claim C7, amended. For every stream of events of a stage, the orchestrator captures the
  text of the first part of the last event that is a final response and has a content
  with at least one part, and the empty string when the stream has no such event. With
  both runners present, the pipeline sends the planner prompt, then the checker prompt
  built from the planner's captured text, in the state the planner call left, and
  returns the text captured from the checker's stream.
\<close>

theorem final_text_captured:
  "capture_final events [] =
     (case filter has_text events of
        [] \<Rightarrow> []
      | f # fs \<Rightarrow> part_text (hd (parts (the (content (last (f # fs)))))))
   \<and> (planner_runner ag = Some planner \<and> checker_runner ag = Some checker \<longrightarrow>
        (let pr = planner USER_ID SESSION_ID_PLANNER
                (Content ''user''
                  [Part (planner_input (description sys) (domain sys) standard
                          (risk_estimator_tool (description sys)))]) w;
              planner_text = capture_final (fst pr) [];
              cr = checker USER_ID SESSION_ID_CHECKER
                (Content ''user''
                  [Part (checker_input (description sys) (domain sys) standard
                          (risk_estimator_tool (description sys)) planner_text)]) (snd pr)
          in run_pipeline_get_text ag sys standard w = (Inr (capture_final (fst cr) []), snd cr)))"
proof (intro conjI impI)
  show "capture_final events [] =
     (case filter has_text events of
        [] \<Rightarrow> []
      | f # fs \<Rightarrow> part_text (hd (parts (the (content (last (f # fs)))))))"
    by (rule capture_final_filter)
  assume "planner_runner ag = Some planner \<and> checker_runner ag = Some checker"
  then have p: "planner_runner ag = Some planner" and c: "checker_runner ag = Some checker"
    by simp_all
  show "(let pr = planner USER_ID SESSION_ID_PLANNER
                (Content ''user''
                  [Part (planner_input (description sys) (domain sys) standard
                          (risk_estimator_tool (description sys)))]) w;
              planner_text = capture_final (fst pr) [];
              cr = checker USER_ID SESSION_ID_CHECKER
                (Content ''user''
                  [Part (checker_input (description sys) (domain sys) standard
                          (risk_estimator_tool (description sys)) planner_text)]) (snd pr)
          in run_pipeline_get_text ag sys standard w = (Inr (capture_final (fst cr) []), snd cr))"
    by (rule run_both [OF p c])
qed

text \<open>
  A planner that answers \<open>plan\<close> and a checker whose stream is a draft that is not
  final, the final answer \<open>checked\<close> and a final event without content: the pipeline
  returns \<open>checked\<close> after the two calls.
\<close>

theorem final_text_captured_witness:
  "run_pipeline_get_text
     \<lparr>planner_runner =
        Some (\<lambda>u s m w.
          ([\<lparr>is_final_response = True, content = Some (Content ''model'' [Part ''plan''])\<rparr>],
           Suc w)),
      checker_runner =
        Some (\<lambda>u s m w.
          ([\<lparr>is_final_response = False, content = Some (Content ''model'' [Part ''draft''])\<rparr>,
            \<lparr>is_final_response = True, content = Some (Content ''model'' [Part ''checked''])\<rparr>,
            \<lparr>is_final_response = True, content = None\<rparr>],
           Suc w))\<rparr>
     \<lparr>system_id = ''s1'', name = ''Brake ECU'', domain = ''automotive'',
      description = ''brake control'', expected_must_have = [''hara'']\<rparr>
     ''iso26262'' (0::nat)
   = (Inr ''checked'', 2)"
proof -
  let ?planner = "\<lambda>(u::string) (s::string) (m::content) (w::nat).
          ([\<lparr>is_final_response = True, content = Some (Content ''model'' [Part ''plan''])\<rparr>],
           Suc w)"
  let ?checker = "\<lambda>(u::string) (s::string) (m::content) (w::nat).
          ([\<lparr>is_final_response = False, content = Some (Content ''model'' [Part ''draft''])\<rparr>,
            \<lparr>is_final_response = True, content = Some (Content ''model'' [Part ''checked''])\<rparr>,
            \<lparr>is_final_response = True, content = None\<rparr>],
           Suc w)"
  let ?ag = "\<lparr>planner_runner = Some ?planner, checker_runner = Some ?checker\<rparr>"
  let ?sys = "\<lparr>system_id = ''s1'', name = ''Brake ECU'', domain = ''automotive'',
      description = ''brake control'', expected_must_have = [''hara'']\<rparr>"
  have h: "planner_runner ?ag = Some ?planner \<and> checker_runner ?ag = Some ?checker"
    by simp
  have "capture_final [] [] = (case filter has_text [] of [] \<Rightarrow> []
      | f # fs \<Rightarrow> part_text (hd (parts (the (content (last (f # fs)))))))
   \<and> (planner_runner ?ag = Some ?planner \<and> checker_runner ?ag = Some ?checker \<longrightarrow>
        (let pr = ?planner USER_ID SESSION_ID_PLANNER
                (Content ''user''
                  [Part (planner_input (description ?sys) (domain ?sys) ''iso26262''
                          (risk_estimator_tool (description ?sys)))]) 0;
              planner_text = capture_final (fst pr) [];
              cr = ?checker USER_ID SESSION_ID_CHECKER
                (Content ''user''
                  [Part (checker_input (description ?sys) (domain ?sys) ''iso26262''
                          (risk_estimator_tool (description ?sys)) planner_text)]) (snd pr)
          in run_pipeline_get_text ?ag ?sys ''iso26262'' 0 = (Inr (capture_final (fst cr) []), snd cr)))"
    by (rule final_text_captured [of "[]" ?ag ?planner ?checker ?sys "''iso26262''" "0::nat"])
  then have "planner_runner ?ag = Some ?planner \<and> checker_runner ?ag = Some ?checker \<longrightarrow>
        (let pr = ?planner USER_ID SESSION_ID_PLANNER
                (Content ''user''
                  [Part (planner_input (description ?sys) (domain ?sys) ''iso26262''
                          (risk_estimator_tool (description ?sys)))]) 0;
              planner_text = capture_final (fst pr) [];
              cr = ?checker USER_ID SESSION_ID_CHECKER
                (Content ''user''
                  [Part (checker_input (description ?sys) (domain ?sys) ''iso26262''
                          (risk_estimator_tool (description ?sys)) planner_text)]) (snd pr)
          in run_pipeline_get_text ?ag ?sys ''iso26262'' 0 = (Inr (capture_final (fst cr) []), snd cr))"
    by (rule conjunct2)
  with h have r: "(let pr = ?planner USER_ID SESSION_ID_PLANNER
                (Content ''user''
                  [Part (planner_input (description ?sys) (domain ?sys) ''iso26262''
                          (risk_estimator_tool (description ?sys)))]) 0;
              planner_text = capture_final (fst pr) [];
              cr = ?checker USER_ID SESSION_ID_CHECKER
                (Content ''user''
                  [Part (checker_input (description ?sys) (domain ?sys) ''iso26262''
                          (risk_estimator_tool (description ?sys)) planner_text)]) (snd pr)
          in run_pipeline_get_text ?ag ?sys ''iso26262'' 0 = (Inr (capture_final (fst cr) []), snd cr))"
    by (rule rev_mp)
  have "capture_final
          [\<lparr>is_final_response = False, content = Some (Content ''model'' [Part ''draft''])\<rparr>,
            \<lparr>is_final_response = True, content = Some (Content ''model'' [Part ''checked''])\<rparr>,
            \<lparr>is_final_response = True, content = None\<rparr>] [] = ''checked''"
    by simp
  with r show ?thesis by (simp add: Let_def)
qed

section \<open>Properties of evaluate\_systems\<close>

lemma make_row_Inr:
  "\<exists>r. make_row s final_text = Inr r \<and>
       coverage_ratio r =
         of_int (covered_topics r) / of_int (max 1 (int (length (expected_must_have s)))) \<and>
       expected_topics r = int (length (expected_must_have s)) \<and>
       covered_topics r = count_covered (lower final_text) (expected_must_have s) 0"
proof -
  have "max 1 (int (length (expected_must_have s))) \<noteq> 0" by simp
  then show ?thesis
    by (simp add: make_row_def true_div_def Let_def del: of_int_max)
qed

lemma make_row_empty:
  "expected_must_have s = [] \<Longrightarrow> \<exists>r. make_row s final_text = Inr r \<and> coverage_ratio r = 0"
  by (simp add: make_row_def true_div_def Let_def)

lemma evaluate_loop_error:
  "fst (evaluate_loop ag standard systems rows w) = Inl e \<Longrightarrow> e = not_initialized"
proof (induction systems arbitrary: rows w)
  case Nil
  then show ?case by simp
next
  case (Cons s systems)
  show ?case
  proof (cases "planner_runner ag = None \<or> checker_runner ag = None")
    case True
    then have "run_pipeline_get_text ag s standard w = (Inl not_initialized, w)"
      by (rule run_uninitialized)
    with Cons.prems show ?thesis by simp
  next
    case False
    then obtain res where "fst (run_pipeline_get_text ag s standard w) = Inr res"
      using run_initialized [of ag s standard w] by auto
    then obtain w' where run: "run_pipeline_get_text ag s standard w = (Inr res, w')"
      by (cases "run_pipeline_get_text ag s standard w") simp
    obtain r where r: "make_row s res = Inr r" using make_row_Inr by blast
    from Cons.prems run r have "fst (evaluate_loop ag standard systems (rows @ [r]) w') = Inl e"
      by simp
    then show ?thesis by (rule Cons.IH)
  qed
qed

lemma evaluate_loop_rows:
  "fst (evaluate_loop ag standard systems rows w) = Inr out \<Longrightarrow>
   \<exists>new. out = rows @ new \<and> list_all2 ratio_ok systems new"
proof (induction systems arbitrary: rows w)
  case Nil
  then show ?case by simp
next
  case (Cons s systems)
  show ?case
  proof (cases "run_pipeline_get_text ag s standard w")
    case (Pair res w')
    show ?thesis
    proof (cases res)
      case (Inl e)
      with Pair Cons.prems show ?thesis by simp
    next
      case (Inr final_text)
      obtain r where r: "make_row s final_text = Inr r" and ok: "ratio_ok s r"
        using make_row_Inr [of s final_text] unfolding ratio_ok_def by blast
      from Cons.prems Pair Inr r
      have "fst (evaluate_loop ag standard systems (rows @ [r]) w') = Inr out" by simp
      then obtain new where "out = (rows @ [r]) @ new" and "list_all2 ratio_ok systems new"
        using Cons.IH by blast
      then have "out = rows @ (r # new) \<and> list_all2 ratio_ok (s # systems) (r # new)"
        using ok by simp
      then show ?thesis by blast
    qed
  qed
qed

text \<open>
  Claim C6. For every system and every final text, the row of the evaluator is built
  without an error and its coverage ratio is the covered count divided by the maximum
  of 1 and the number of expected keywords; with no expected keyword the ratio is 0.
  For every list of systems the evaluator never fails with a division by zero, and when
  it returns rows, every system's row has its ratio by that formula. The quotient is
  exact here; Python rounds it to a double, and 0 divided by 1 is 0.0 exactly.
\<close>

theorem coverage_ratio_guarded:
  "(\<exists>r. make_row s final_text = Inr r \<and>
        coverage_ratio r =
          of_int (covered_topics r) / of_int (max 1 (int (length (expected_must_have s)))) \<and>
        expected_topics r = int (length (expected_must_have s)) \<and>
        covered_topics r = count_covered (lower final_text) (expected_must_have s) 0)
   \<and> (expected_must_have s = [] \<longrightarrow>
        (\<exists>r. make_row s final_text = Inr r \<and> coverage_ratio r = 0))
   \<and> fst (evaluate_systems ag systems standard w) \<noteq> Inl ZeroDivisionError
   \<and> (\<forall>rows. fst (evaluate_systems ag systems standard w) = Inr rows \<longrightarrow>
        list_all2 ratio_ok systems rows)"
proof (intro conjI impI allI)
  show "\<exists>r. make_row s final_text = Inr r \<and>
        coverage_ratio r =
          of_int (covered_topics r) / of_int (max 1 (int (length (expected_must_have s)))) \<and>
        expected_topics r = int (length (expected_must_have s)) \<and>
        covered_topics r = count_covered (lower final_text) (expected_must_have s) 0"
    by (rule make_row_Inr)
next
  assume "expected_must_have s = []"
  then show "\<exists>r. make_row s final_text = Inr r \<and> coverage_ratio r = 0"
    by (rule make_row_empty)
next
  show "fst (evaluate_systems ag systems standard w) \<noteq> Inl ZeroDivisionError"
  proof
    assume "fst (evaluate_systems ag systems standard w) = Inl ZeroDivisionError"
    then have "ZeroDivisionError = not_initialized"
      unfolding evaluate_systems_def by (rule evaluate_loop_error)
    then show False by (simp add: not_initialized_def)
  qed
next
  fix rows
  assume "fst (evaluate_systems ag systems standard w) = Inr rows"
  then have "\<exists>new. rows = [] @ new \<and> list_all2 ratio_ok systems new"
    unfolding evaluate_systems_def by (rule evaluate_loop_rows)
  then show "list_all2 ratio_ok systems rows" by simp
qed

text \<open>
  Two systems, the first with two expected keywords of which the checker's text covers
  \<open>hara\<close>, the second with none: the ratios are one half and 0.
\<close>

theorem coverage_ratio_guarded_witness:
  "fst (evaluate_systems
     \<lparr>planner_runner =
        Some (\<lambda>u s m w.
          ([\<lparr>is_final_response = True, content = Some (Content ''model'' [Part ''plan''])\<rparr>],
           Suc w)),
      checker_runner =
        Some (\<lambda>u s m w.
          ([\<lparr>is_final_response = True,
              content = Some (Content ''model'' [Part ''Hazard Analysis and tests''])\<rparr>],
           Suc w))\<rparr>
     [\<lparr>system_id = ''s1'', name = ''Brake ECU'', domain = ''automotive'',
       description = ''brake control'', expected_must_have = [''hara'', ''safety_case'']\<rparr>,
      \<lparr>system_id = ''s2'', name = ''Step counter'', domain = ''consumer'',
       description = ''counts steps'', expected_must_have = []\<rparr>]
     ''iso26262'' (0::nat))
   = Inr
     [\<lparr>row_id = ''s1'', row_name = ''Brake ECU'', row_domain = ''automotive'',
       risk = ''medium'', expected_topics = 2, covered_topics = 1, coverage_ratio = 1 / 2\<rparr>,
      \<lparr>row_id = ''s2'', row_name = ''Step counter'', row_domain = ''consumer'',
       risk = ''low'', expected_topics = 0, covered_topics = 0, coverage_ratio = 0\<rparr>]
   \<and> list_all2 ratio_ok
     [\<lparr>system_id = ''s1'', name = ''Brake ECU'', domain = ''automotive'',
       description = ''brake control'', expected_must_have = [''hara'', ''safety_case'']\<rparr>,
      \<lparr>system_id = ''s2'', name = ''Step counter'', domain = ''consumer'',
       description = ''counts steps'', expected_must_have = []\<rparr>]
     [\<lparr>row_id = ''s1'', row_name = ''Brake ECU'', row_domain = ''automotive'',
       risk = ''medium'', expected_topics = 2, covered_topics = 1, coverage_ratio = 1 / 2\<rparr>,
      \<lparr>row_id = ''s2'', row_name = ''Step counter'', row_domain = ''consumer'',
       risk = ''low'', expected_topics = 0, covered_topics = 0, coverage_ratio = 0\<rparr>]"
proof -
  let ?ag = "\<lparr>planner_runner =
        Some (\<lambda>(u::string) (s::string) (m::content) (w::nat).
          ([\<lparr>is_final_response = True, content = Some (Content ''model'' [Part ''plan''])\<rparr>],
           Suc w)),
      checker_runner =
        Some (\<lambda>(u::string) (s::string) (m::content) (w::nat).
          ([\<lparr>is_final_response = True,
              content = Some (Content ''model'' [Part ''Hazard Analysis and tests''])\<rparr>],
           Suc w))\<rparr>"
  let ?systems = "[\<lparr>system_id = ''s1'', name = ''Brake ECU'', domain = ''automotive'',
       description = ''brake control'', expected_must_have = [''hara'', ''safety_case'']\<rparr>,
      \<lparr>system_id = ''s2'', name = ''Step counter'', domain = ''consumer'',
       description = ''counts steps'', expected_must_have = []\<rparr>]"
  let ?rows = "[\<lparr>row_id = ''s1'', row_name = ''Brake ECU'', row_domain = ''automotive'',
       risk = ''medium'', expected_topics = 2, covered_topics = 1, coverage_ratio = 1 / 2\<rparr>,
      \<lparr>row_id = ''s2'', row_name = ''Step counter'', row_domain = ''consumer'',
       risk = ''low'', expected_topics = 0, covered_topics = 0, coverage_ratio = 0\<rparr>]"
  have run: "fst (evaluate_systems ?ag ?systems ''iso26262'' (0::nat)) = Inr ?rows"
    by code_simp
  have "\<forall>rows. fst (evaluate_systems ?ag ?systems ''iso26262'' (0::nat)) = Inr rows \<longrightarrow>
          list_all2 ratio_ok ?systems rows"
    using coverage_ratio_guarded [of "hd ?systems" "[]" ?ag ?systems "''iso26262''" "0::nat"]
    by (elim conjE)
  then have "fst (evaluate_systems ?ag ?systems ''iso26262'' (0::nat)) = Inr ?rows \<longrightarrow>
          list_all2 ratio_ok ?systems ?rows"
    by (rule spec)
  with run have "list_all2 ratio_ok ?systems ?rows" by (rule rev_mp)
  with run show ?thesis by (rule conjI)
qed

end
